theory Spec2Isabelle
  imports Main "HOL-Library.Multiset"
begin

section \<open>The operating system seen by client.py\<close>

text \<open>
  client.py talks to the operating system through \<^verbatim>\<open>os.kill\<close>,
  \<^verbatim>\<open>psutil.Process(pid).children(recursive=True)\<close>, \<^verbatim>\<open>subprocess.Popen\<close>,
  \<^verbatim>\<open>Popen.wait\<close> and the two pipes of the child. The process table is an
  association list from process ids to the parent process id and to whether the
  process survives SIGTERM (it handles or ignores it). A process that exits leaves
  the table, its children are adopted by process 1, and the time and status of its
  end are kept for \<^verbatim>\<open>wait\<close>. All processes belong to the caller, so signalling
  fails only when the target is gone. What a command does once started is a
  \<open>program\<close>: whether it can be started at all, the lines it writes to each pipe
  and when (in clock ticks after its start), when it ends by itself, if ever, and
  with which status. Tokenising the command (\<^verbatim>\<open>shlex.split\<close>) is left out.
\<close>

type_synonym pid = nat
type_synonym obj_ref = nat
type_synonym bytes = string

datatype signal = SIGTERM | SIGKILL

datatype error = ProcessLookupError | NoSuchProcess | LaunchFailure | AttributeError

datatype stream = Stdout | Stderr

datatype hook = Cleanup

record process =
  ppid :: pid
  catches_term :: bool

record program =
  launches :: bool
  out_lines :: "(nat \<times> bytes) list"
  err_lines :: "(nat \<times> bytes) list"
  exit_status :: int
  lifetime :: "nat option"
  handles_term :: bool

record child =
  child_program :: program
  born :: nat

text \<open>
  \<^verbatim>\<open>io.BytesIO\<close>: the contents and the position of the next write; a write at a
  position behind the end fills the gap with zero bytes.
\<close>

record bytesio =
  content :: bytes
  pos :: nat

definition bio_write :: "bytes \<Rightarrow> bytesio \<Rightarrow> bytesio" where
  "bio_write s b =
     \<lparr>content = take (pos b) (content b) @ replicate (pos b - length (content b)) (CHR 0x00)
                 @ s @ drop (pos b + length s) (content b),
      pos = pos b + length s\<rparr>"

definition bio_seek :: "nat \<Rightarrow> bytesio \<Rightarrow> bytesio" where
  "bio_seek n b = b\<lparr>pos := n\<rparr>"

definition bio_truncate :: "bytesio \<Rightarrow> bytesio" where
  "bio_truncate b = b\<lparr>content := take (pos b) (content b)\<rparr>"

definition getvalue :: "bytesio \<Rightarrow> bytes" where
  "getvalue b = content b"

text \<open>A \<^verbatim>\<open>subprocess.Popen\<close> object: the process id and the status stored by \<^verbatim>\<open>wait\<close>.\<close>

record popen =
  popen_pid :: pid
  popen_returncode :: "int option"

text \<open>A thread started by read\_pipe: the lines it has copied, and whether it has ended.\<close>

record pump =
  copied :: nat
  finished :: bool

text \<open>class CLIResponse, lines 36-44: the fields set by \<^verbatim>\<open>__init__\<close>.\<close>

record cli_response =
  stderr_buf :: bytesio
  stdout_buf :: bytesio
  cmd :: string
  proc :: "popen option"
  returncode :: "int option"
  decode_type :: string
  total_time :: "nat option"

text \<open>
  The state of the interpreter and of the machine: the module globals
  \<^verbatim>\<open>is_windows\<close> and \<^verbatim>\<open>OBJS_TO_CLEANUP\<close>, the functions registered with
  \<^verbatim>\<open>atexit\<close>, the objects of class CLIResponse by reference, the pump threads, the
  process table, what the children started by Popen do, the processes that have
  ended, the log of the signals delivered by \<^verbatim>\<open>os.kill\<close>, and the clock read by
  \<^verbatim>\<open>time.time()\<close>.
\<close>

record world =
  is_windows :: bool
  OBJS_TO_CLEANUP :: "obj_ref list"
  atexit_hooks :: "hook list"
  heap :: "(obj_ref \<times> cli_response) list"
  pumps :: "obj_ref \<times> stream \<rightharpoonup> pump"
  ptable :: "(pid \<times> process) list"
  children :: "pid \<rightharpoonup> child"
  exited :: "pid \<rightharpoonup> nat \<times> int"
  delivered :: "(pid \<times> signal) list"
  clock :: nat

text \<open>Lines 14-23: the module as loaded, on a machine whose process table is \<open>t\<close>.\<close>

definition module_loaded :: "bool \<Rightarrow> (pid \<times> process) list \<Rightarrow> world" where
  "module_loaded win t =
     \<lparr>is_windows = win, OBJS_TO_CLEANUP = [], atexit_hooks = [Cleanup], heap = [],
      pumps = Map.empty, ptable = t, children = Map.empty, exited = Map.empty,
      delivered = [], clock = 0\<rparr>"

definition alive :: "world \<Rightarrow> pid \<Rightarrow> bool" where
  "alive w p = (map_of (ptable w) p \<noteq> None)"

text \<open>
  A process leaves the table at time \<open>t\<close> with status \<open>st\<close>; its children are
  adopted by process 1.
\<close>

definition adopt :: "pid \<Rightarrow> process \<Rightarrow> process" where
  "adopt p pr = (if ppid pr = p then pr\<lparr>ppid := 1\<rparr> else pr)"

definition proc_exit :: "pid \<Rightarrow> nat \<Rightarrow> int \<Rightarrow> world \<Rightarrow> world" where
  "proc_exit p t st w =
     w\<lparr>ptable := map (\<lambda>(q, pr). (q, adopt p pr)) (filter (\<lambda>(q, pr). q \<noteq> p) (ptable w)),
       exited := (exited w)(p \<mapsto> (t, st))\<rparr>"

fun proc_exits :: "pid list \<Rightarrow> world \<Rightarrow> world" where
  "proc_exits [] w = w"
| "proc_exits (p # ps) w = proc_exits ps (proc_exit p (clock w) 0 w)"

text \<open>
  Whether a signal ends a process: SIGKILL always does, SIGTERM does unless the
  process catches it; where \<^verbatim>\<open>is_windows\<close> holds \<^verbatim>\<open>os.kill\<close> terminates the
  process whatever the signal. The status of a process ended by a signal is the
  negated signal number, and the signal number itself on Windows.
\<close>

definition fatal :: "bool \<Rightarrow> signal \<Rightarrow> process \<Rightarrow> bool" where
  "fatal win sig pr = (win \<or> sig = SIGKILL \<or> \<not> catches_term pr)"

fun signum :: "signal \<Rightarrow> int" where
  "signum SIGTERM = 15"
| "signum SIGKILL = 9"

definition killed_status :: "bool \<Rightarrow> signal \<Rightarrow> int" where
  "killed_status win sig = (if win then signum sig else - signum sig)"

text \<open>\<^verbatim>\<open>os.kill(pid, sig)\<close>: ProcessLookupError when the process is gone.\<close>

definition os_kill :: "pid \<Rightarrow> signal \<Rightarrow> world \<Rightarrow> error option \<times> world" where
  "os_kill p sig w =
     (case map_of (ptable w) p of
        None \<Rightarrow> (Some ProcessLookupError, w)
      | Some pr \<Rightarrow>
          (let w' = w\<lparr>delivered := delivered w @ [(p, sig)]\<rparr>
           in (None, if fatal (is_windows w) sig pr
                     then proc_exit p (clock w) (killed_status (is_windows w) sig) w'
                     else w')))"

text \<open>
  \<^verbatim>\<open>psutil.Process(pid).children(recursive=True)\<close>: NoSuchProcess when the process
  is gone, otherwise every process whose chain of parents leads to \<open>pid\<close>.
\<close>

fun reaches :: "(pid \<times> process) list \<Rightarrow> nat \<Rightarrow> pid \<Rightarrow> pid \<Rightarrow> bool" where
  "reaches t 0 q p = False"
| "reaches t (Suc n) q p =
     (case map_of t q of
        None \<Rightarrow> False
      | Some pr \<Rightarrow> ppid pr = p \<or> reaches t n (ppid pr) p)"

definition descendants :: "world \<Rightarrow> pid \<Rightarrow> pid list" where
  "descendants w p =
     remdups (filter (\<lambda>q. q \<noteq> p \<and> reaches (ptable w) (length (ptable w)) q p)
                (map fst (ptable w)))"

definition psutil_children :: "pid \<Rightarrow> world \<Rightarrow> error + pid list" where
  "psutil_children p w = (if alive w p then Inr (descendants w p) else Inl NoSuchProcess)"

section \<open>Objects\<close>

text \<open>An assignment to fields of the object \<open>self\<close>, in place.\<close>

definition set_obj :: "obj_ref \<Rightarrow> (cli_response \<Rightarrow> cli_response) \<Rightarrow> world \<Rightarrow> world" where
  "set_obj self f w =
     w\<lparr>heap := map (\<lambda>(r, obj). (r, if r = self then f obj else obj)) (heap w)\<rparr>"

text \<open>Lines 37-44, \<^verbatim>\<open>CLIResponse(cmd)\<close>: a new object under a reference not in use.\<close>

definition fresh_ref :: "world \<Rightarrow> obj_ref" where
  "fresh_ref w = Suc (fold max (map fst (heap w)) 0)"

definition new_response :: "string \<Rightarrow> world \<Rightarrow> obj_ref \<times> world" where
  "new_response c w =
     (fresh_ref w,
      w\<lparr>heap := (fresh_ref w,
                  \<lparr>stderr_buf = \<lparr>content = [], pos = 0\<rparr>, stdout_buf = \<lparr>content = [], pos = 0\<rparr>,
                   cmd = c, proc = None, returncode = None, decode_type = ''utf8'',
                   total_time = None\<rparr>) # heap w\<rparr>)"

section \<open>CLIResponse.kill, \<^verbatim>\<open>__del__\<close>, clear\_buffers and cleanup\<close>

text \<open>Lines 100-101: the loop over the enumerated children stops at the first raise.\<close>

fun kill_each :: "signal \<Rightarrow> pid list \<Rightarrow> world \<Rightarrow> error option \<times> world" where
  "kill_each sig [] w = (None, w)"
| "kill_each sig (q # qs) w =
     (case os_kill q sig w of
        (Some e, w') \<Rightarrow> (Some e, w')
      | (None, w') \<Rightarrow> kill_each sig qs w')"

text \<open>
  Lines 94-98 choose the signal (\<open>resolve\<close>). Lines 100-102 are the body of the
  \<^verbatim>\<open>try\<close>. Other processes run while kill does: \<open>gone\<close> lists the processes
  that exit by themselves after the children were enumerated and before the first
  signal is sent.
\<close>

definition resolve :: "world \<Rightarrow> signal option \<Rightarrow> signal" where
  "resolve w sig = (case sig of None \<Rightarrow> if is_windows w then SIGTERM else SIGKILL | Some s \<Rightarrow> s)"

definition kill_try :: "pid \<Rightarrow> signal \<Rightarrow> pid list \<Rightarrow> world \<Rightarrow> error option \<times> world" where
  "kill_try p sig gone w =
     (case psutil_children p w of
        Inl e \<Rightarrow> (Some e, w)
      | Inr cs \<Rightarrow>
          (case kill_each sig cs (proc_exits gone w) of
             (Some e, w') \<Rightarrow> (Some e, w')
           | (None, w') \<Rightarrow> os_kill p sig w'))"

text \<open>Lines 105-106.\<close>

definition unregister :: "obj_ref \<Rightarrow> world \<Rightarrow> world" where
  "unregister self w =
     (if self \<in> set (OBJS_TO_CLEANUP w)
      then w\<lparr>OBJS_TO_CLEANUP := remove1 self (OBJS_TO_CLEANUP w)\<rparr> else w)"

text \<open>
  Lines 91-106. Reading a field of an object that does not exist is an
  AttributeError; the \<^verbatim>\<open>except\<close> clause lets any error other than the two it
  names pass to the caller.
\<close>

definition kill :: "obj_ref \<Rightarrow> signal option \<Rightarrow> pid list \<Rightarrow> world \<Rightarrow> error option \<times> world" where
  "kill self sig gone w =
     (case map_of (heap w) self of
        None \<Rightarrow> (Some AttributeError, w)
      | Some obj \<Rightarrow>
          (case proc obj of
             None \<Rightarrow> (None, w)
           | Some po \<Rightarrow>
               (let sig' = resolve w sig
                in case kill_try (popen_pid po) sig' gone w of
                     (Some e, w') \<Rightarrow>
                       if e = ProcessLookupError \<or> e = NoSuchProcess
                       then (None, unregister self w') else (Some e, w')
                   | (None, w') \<Rightarrow> (None, unregister self w'))))"


text \<open>Lines 111-115.\<close>

definition clear_buffers :: "obj_ref \<Rightarrow> world \<Rightarrow> error option \<times> world" where
  "clear_buffers self w =
     (case map_of (heap w) self of
        None \<Rightarrow> (Some AttributeError, w)
      | Some obj \<Rightarrow>
          (None, set_obj self
                   (\<lambda>obj. obj\<lparr>stdout_buf := bio_truncate (bio_seek 0 (stdout_buf obj)),
                              stderr_buf := bio_truncate (bio_seek 0 (stderr_buf obj))\<rparr>) w))"

text \<open>Lines 46-52: the properties stdout and stderr.\<close>

definition stdout :: "obj_ref \<Rightarrow> world \<Rightarrow> bytes option" where
  "stdout self w = map_option (\<lambda>obj. getvalue (stdout_buf obj)) (map_of (heap w) self)"

definition stderr :: "obj_ref \<Rightarrow> world \<Rightarrow> bytes option" where
  "stderr self w = map_option (\<lambda>obj. getvalue (stderr_buf obj)) (map_of (heap w) self)"





section \<open>Starting a process and draining its pipes\<close>

text \<open>
  A call returns a value, raises an error, or never returns (it waits for a
  process that does not end).
\<close>

datatype 'a outcome = Done 'a | Raised error world | Blocked

definition fresh_pid :: "world \<Rightarrow> pid" where
  "fresh_pid w = Suc (fold max (map fst (ptable w)) 1)"

definition python_pid :: pid where
  "python_pid = 0"

text \<open>Lines 127-133, \<^verbatim>\<open>subprocess.Popen(cmd, **kwargs)\<close>.\<close>

definition popen_call :: "program \<Rightarrow> world \<Rightarrow> error + pid \<times> world" where
  "popen_call prog w =
     (if \<not> launches prog then Inl LaunchFailure
      else Inr (fresh_pid w,
                w\<lparr>ptable := (fresh_pid w, \<lparr>ppid = python_pid, catches_term = handles_term prog\<rparr>)
                             # ptable w,
                  children := (children w)(fresh_pid w \<mapsto> \<lparr>child_program = prog, born = clock w\<rparr>),
                  exited := (exited w)(fresh_pid w := None)\<rparr>))"

text \<open>Lines 26-33: read\_pipe starts a thread and returns it.\<close>

definition read_pipe :: "stream \<Rightarrow> obj_ref \<Rightarrow> world \<Rightarrow> world" where
  "read_pipe st self w = w\<lparr>pumps := (pumps w)((self, st) \<mapsto> \<lparr>copied = 0, finished = False\<rparr>)\<rparr>"

text \<open>
  The lines a child has written to a pipe so far: those whose time has come, up to
  the end of the process.
\<close>

definition lines_of :: "stream \<Rightarrow> program \<Rightarrow> (nat \<times> bytes) list" where
  "lines_of st prog = (case st of Stdout \<Rightarrow> out_lines prog | Stderr \<Rightarrow> err_lines prog)"

definition written_until :: "world \<Rightarrow> pid \<Rightarrow> nat" where
  "written_until w p =
     (case exited w p of
        Some (td, st) \<Rightarrow> td
      | None \<Rightarrow>
          (case children w p of
             None \<Rightarrow> clock w
           | Some ch \<Rightarrow>
               (case lifetime (child_program ch) of
                  None \<Rightarrow> clock w
                | Some d \<Rightarrow> min (clock w) (born ch + d))))"

definition avail :: "world \<Rightarrow> pid \<Rightarrow> stream \<Rightarrow> bytes list" where
  "avail w p st =
     (case children w p of
        None \<Rightarrow> []
      | Some ch \<Rightarrow>
          map snd (takeWhile (\<lambda>(u, l). born ch + u \<le> written_until w p)
                     (lines_of st (child_program ch))))"

definition buf_of :: "stream \<Rightarrow> cli_response \<Rightarrow> bytesio" where
  "buf_of st obj = (case st of Stdout \<Rightarrow> stdout_buf obj | Stderr \<Rightarrow> stderr_buf obj)"

definition buf_write :: "stream \<Rightarrow> bytes \<Rightarrow> cli_response \<Rightarrow> cli_response" where
  "buf_write st l obj =
     (case st of
        Stdout \<Rightarrow> obj\<lparr>stdout_buf := bio_write l (stdout_buf obj)\<rparr>
      | Stderr \<Rightarrow> obj\<lparr>stderr_buf := bio_write l (stderr_buf obj)\<rparr>)"

text \<open>
  Lines 28-29, one turn of the thread started by read\_pipe: it copies the next
  line if there is one, ends when the process has ended and nothing is left, and
  otherwise waits in \<^verbatim>\<open>readline\<close>.
\<close>

definition pump_step :: "stream \<Rightarrow> obj_ref \<Rightarrow> world \<Rightarrow> world" where
  "pump_step st self w =
     (case (pumps w (self, st), map_of (heap w) self) of
        (Some pm, Some obj) \<Rightarrow>
          (case proc obj of
             None \<Rightarrow> w
           | Some po \<Rightarrow>
               if finished pm then w
               else if copied pm < length (avail w (popen_pid po) st)
               then (set_obj self (buf_write st (avail w (popen_pid po) st ! copied pm)) w)
                      \<lparr>pumps := (pumps w)((self, st) \<mapsto> pm\<lparr>copied := Suc (copied pm)\<rparr>)\<rparr>
               else if exited w (popen_pid po) \<noteq> None
               then w\<lparr>pumps := (pumps w)((self, st) \<mapsto> pm\<lparr>finished := True\<rparr>)\<rparr>
               else w)
      | _ \<Rightarrow> w)"

fun pump_steps :: "nat \<Rightarrow> stream \<Rightarrow> obj_ref \<Rightarrow> world \<Rightarrow> world" where
  "pump_steps 0 st self w = w"
| "pump_steps (Suc n) st self w = pump_steps n st self (pump_step st self w)"

text \<open>
  Lines 137-138, \<^verbatim>\<open>thread.join()\<close> on a thread started by read\_pipe: the thread
  runs until it has ended, which it cannot before the process has.
\<close>

definition pump_join :: "stream \<Rightarrow> obj_ref \<Rightarrow> world \<Rightarrow> world outcome" where
  "pump_join st self w =
     (case (pumps w (self, st), map_of (heap w) self) of
        (Some pm, Some obj) \<Rightarrow>
          (case proc obj of
             None \<Rightarrow> Raised AttributeError w
           | Some po \<Rightarrow>
               if finished pm then Done w
               else if exited w (popen_pid po) = None then Blocked
               else Done (pump_steps (Suc (length (avail w (popen_pid po) st) - copied pm))
                            st self w))
      | _ \<Rightarrow> Raised AttributeError w)"


section \<open>CommandLineClient\<close>

text \<open>
  Lines 133-135: Popen, then the two calls of read\_pipe. An error raised by Popen
  leaves \<^verbatim>\<open>cmd_obj.proc\<close> as it was.
\<close>

definition target_start :: "obj_ref \<Rightarrow> program \<Rightarrow> world \<Rightarrow> world outcome" where
  "target_start self prog w =
     (case popen_call prog w of
        Inl e \<Rightarrow> Raised e w
      | Inr (p, w1) \<Rightarrow>
          Done (read_pipe Stderr self (read_pipe Stdout self
                  (set_obj self (\<lambda>obj. obj\<lparr>proc := Some \<lparr>popen_pid = p, popen_returncode = None\<rparr>\<rparr>)
                     w1))))"

text \<open>
  \<^verbatim>\<open>Popen.wait()\<close> on a child: returns once the process has ended, at the time
  of its end or now if that is later; never returns when the process never ends.
\<close>

definition proc_wait :: "pid \<Rightarrow> world \<Rightarrow> (int \<times> world) outcome" where
  "proc_wait p w =
     (case exited w p of
        Some (td, st) \<Rightarrow> Done (st, w\<lparr>clock := max (clock w) td\<rparr>)
      | None \<Rightarrow>
          (case children w p of
             None \<Rightarrow> Blocked
           | Some ch \<Rightarrow>
               (case lifetime (child_program ch) of
                  None \<Rightarrow> Blocked
                | Some d \<Rightarrow>
                    Done (exit_status (child_program ch),
                          proc_exit p (born ch + d) (exit_status (child_program ch))
                            (w\<lparr>clock := max (clock w) (born ch + d)\<rparr>)))))"

text \<open>Line 136.\<close>

definition wait_step :: "obj_ref \<Rightarrow> world \<Rightarrow> world outcome" where
  "wait_step self w =
     (case map_of (heap w) self of
        None \<Rightarrow> Raised AttributeError w
      | Some obj \<Rightarrow>
          (case proc obj of
             None \<Rightarrow> Raised AttributeError w
           | Some po \<Rightarrow>
               (case popen_returncode po of
                  Some st \<Rightarrow> Done (set_obj self (\<lambda>obj. obj\<lparr>returncode := Some st\<rparr>) w)
                | None \<Rightarrow>
                    (case proc_wait (popen_pid po) w of
                       Blocked \<Rightarrow> Blocked
                     | Raised e w' \<Rightarrow> Raised e w'
                     | Done (st, w') \<Rightarrow>
                         Done (set_obj self
                                 (\<lambda>obj. obj\<lparr>proc := Some (po\<lparr>popen_returncode := Some st\<rparr>),
                                            returncode := Some st\<rparr>) w')))))"

text \<open>Lines 150-151.\<close>

definition finalize :: "obj_ref \<Rightarrow> nat \<Rightarrow> world \<Rightarrow> world outcome" where
  "finalize self start w =
     (case map_of (heap w) self of
        None \<Rightarrow> Raised AttributeError w
      | Some obj \<Rightarrow>
          (case proc obj of
             None \<Rightarrow> Raised AttributeError w
           | Some po \<Rightarrow>
               Done (set_obj self
                       (\<lambda>obj. obj\<lparr>returncode := popen_returncode po,
                                  total_time := Some (clock w - start)\<rparr>) w)))"

text \<open>
  Lines 144-146. \<^verbatim>\<open>thread.join(timeout)\<close> returns when the thread running target has
  ended or at the deadline; the thread is still alive then unless the process
  ended before the deadline. If it is, the object is killed.
\<close>

definition death_time :: "world \<Rightarrow> pid \<Rightarrow> nat option" where
  "death_time w p =
     (case exited w p of
        Some (td, st) \<Rightarrow> Some td
      | None \<Rightarrow>
          (case children w p of
             None \<Rightarrow> None
           | Some ch \<Rightarrow> map_option (\<lambda>d. born ch + d) (lifetime (child_program ch))))"

definition thread_alive :: "obj_ref \<Rightarrow> nat \<Rightarrow> world \<Rightarrow> bool" where
  "thread_alive self deadline w =
     (case map_of (heap w) self of
        None \<Rightarrow> False
      | Some obj \<Rightarrow>
          (case proc obj of
             None \<Rightarrow> False
           | Some po \<Rightarrow>
               (case death_time w (popen_pid po) of
                  None \<Rightarrow> True
                | Some td \<Rightarrow> deadline \<le> td)))"

definition join_timeout :: "obj_ref \<Rightarrow> nat \<Rightarrow> world \<Rightarrow> world outcome" where
  "join_timeout self deadline w =
     (if thread_alive self deadline w
      then (case kill self None [] (w\<lparr>clock := max (clock w) deadline\<rparr>) of
              (Some e, w') \<Rightarrow> Raised e w'
            | (None, w') \<Rightarrow> Done w')
      else Done w)"

text \<open>
  The statements run one after the other; the states they leave are the states
  another thread can see. A raise or a wait without end stops the run.
\<close>

fun run_steps :: "(world \<Rightarrow> world outcome) list \<Rightarrow> world \<Rightarrow> world list \<times> world outcome" where
  "run_steps [] w = ([], Done w)"
| "run_steps (f # fs) w =
     (case f w of
        Done w' \<Rightarrow> (case run_steps fs w' of (tr, r) \<Rightarrow> (w' # tr, r))
      | Raised e w' \<Rightarrow> ([w'], Raised e w')
      | Blocked \<Rightarrow> ([], Blocked))"

text \<open>
  Lines 136-152 once Popen has succeeded: with a timeout, lines 144-146 and then
  line 147, which lets target run lines 136-138 to their end; without, lines
  136-138 at once; then lines 150-151.
\<close>

definition target_steps :: "obj_ref \<Rightarrow> (world \<Rightarrow> world outcome) list" where
  "target_steps self = [wait_step self, pump_join Stdout self, pump_join Stderr self]"

definition exec_steps :: "obj_ref \<Rightarrow> nat option \<Rightarrow> nat \<Rightarrow> (world \<Rightarrow> world outcome) list" where
  "exec_steps self timeout start =
     (case timeout of None \<Rightarrow> [] | Some T \<Rightarrow> [join_timeout self (start + T)])
     @ target_steps self @ [finalize self start]"

text \<open>
  Lines 120-152, \<^verbatim>\<open>_exec_cmd\<close> (a name cannot start with an underscore), with the
  states it goes through. When Popen raises, the error reaches the caller if target
  runs in the caller's thread (line 149); with a timeout it ends the thread started
  at line 143 only, and line 150 runs. That thread is taken to reach Popen before
  the deadline.
\<close>

definition exec_trace ::
  "string \<Rightarrow> nat option \<Rightarrow> obj_ref option \<Rightarrow> program \<Rightarrow> world
     \<Rightarrow> obj_ref \<times> world list \<times> world outcome" where
  "exec_trace c timeout cmd_obj prog w =
     (case (case cmd_obj of Some r \<Rightarrow> (r, w) | None \<Rightarrow> new_response c w) of
        (self, w0) \<Rightarrow>
          (case target_start self prog w0 of
             Raised e w1 \<Rightarrow>
               (case timeout of
                  None \<Rightarrow> (self, [w0], Raised e w1)
                | Some T \<Rightarrow>
                    (case run_steps [finalize self (clock w0)] w1 of
                       (tr, r) \<Rightarrow> (self, w0 # tr, r)))
           | Done w1 \<Rightarrow>
               (case run_steps (exec_steps self timeout (clock w0)) w1 of
                  (tr, r) \<Rightarrow> (self, w0 # w1 # tr, r))
           | Blocked \<Rightarrow> (self, [w0], Blocked)))"

definition exec_cmd_impl ::
  "string \<Rightarrow> nat option \<Rightarrow> obj_ref option \<Rightarrow> program \<Rightarrow> world \<Rightarrow> (obj_ref \<times> world) outcome" where
  "exec_cmd_impl c timeout cmd_obj prog w =
     (case exec_trace c timeout cmd_obj prog w of
        (self, tr, Done w') \<Rightarrow> Done (self, w')
      | (self, tr, Raised e w') \<Rightarrow> Raised e w'
      | (self, tr, Blocked) \<Rightarrow> Blocked)"

text \<open>Lines 155-157.\<close>

definition exec_cmd :: "string \<Rightarrow> nat option \<Rightarrow> program \<Rightarrow> world \<Rightarrow> (obj_ref \<times> world) outcome" where
  "exec_cmd c timeout prog w = exec_cmd_impl c timeout None prog w"

text \<open>
  Lines 166-167: the loop sleeps a tick until the thread started at line 165 has
  stored the Popen object. No result is its not ending.
\<close>

definition proc_attached :: "obj_ref \<Rightarrow> world \<Rightarrow> bool" where
  "proc_attached self w =
     (case map_of (heap w) self of None \<Rightarrow> False | Some obj \<Rightarrow> proc obj \<noteq> None)"

partial_function (option) poll :: "obj_ref \<Rightarrow> world \<Rightarrow> world option" where
  "poll self w =
     (if proc_attached self w then Some w else poll self (w\<lparr>clock := Suc (clock w)\<rparr>))"

text \<open>
  Lines 160-169. The thread started at line 165 runs \<^verbatim>\<open>_exec_cmd\<close> on the new
  object: it is taken to reach Popen before the loop of line 166 looks, and an
  error it raises ends that thread only. The rest of its run, async\_worker, comes
  after async\_cmd has returned.
\<close>

definition async_cmd :: "string \<Rightarrow> nat option \<Rightarrow> program \<Rightarrow> world \<Rightarrow> (obj_ref \<times> world) outcome" where
  "async_cmd c timeout prog w =
     (case new_response c w of
        (obj, w0) \<Rightarrow>
          (case poll obj (case target_start obj prog w0 of
                            Done w1 \<Rightarrow> w1 | Raised e w1 \<Rightarrow> w1 | Blocked \<Rightarrow> w0) of
             None \<Rightarrow> Blocked
           | Some w2 \<Rightarrow> Done (obj, w2\<lparr>OBJS_TO_CLEANUP := OBJS_TO_CLEANUP w2 @ [obj]\<rparr>)))"



section \<open>Auxiliary notions and example states\<close>

text \<open>What signalling leaves alone: everything but the process table, the record
  of ended processes and the log of signals.\<close>

definition same_session :: "world \<Rightarrow> world \<Rightarrow> bool" where
  "same_session w w' =
     (heap w' = heap w \<and> is_windows w' = is_windows w \<and> OBJS_TO_CLEANUP w' = OBJS_TO_CLEANUP w \<and>
      clock w' = clock w \<and> pumps w' = pumps w \<and> children w' = children w \<and>
      atexit_hooks w' = atexit_hooks w)"


text \<open>The entry of the process table reduced to whether the process catches SIGTERM.\<close>

definition ct :: "world \<Rightarrow> pid \<Rightarrow> bool option" where
  "ct w q = map_option catches_term (map_of (ptable w) q)"

text \<open>The signal that kill sends ends process \<open>q\<close>, if \<open>q\<close> is there.\<close>

definition ends :: "world \<Rightarrow> signal option \<Rightarrow> pid \<Rightarrow> bool" where
  "ends w sig q =
     (case map_of (ptable w) q of
        None \<Rightarrow> True
      | Some pr \<Rightarrow> fatal (is_windows w) (resolve w sig) pr)"

text \<open>
  A POSIX machine on which an object tracks process 10, which has the child 11 and
  the grandchild 12; process 20 is unrelated. In \<open>w_orphan\<close> process 10 has ended.
\<close>

definition w_family :: world where
  "w_family =
     (module_loaded False
        [(10, \<lparr>ppid = 0, catches_term = False\<rparr>), (11, \<lparr>ppid = 10, catches_term = True\<rparr>),
         (12, \<lparr>ppid = 11, catches_term = False\<rparr>), (20, \<lparr>ppid = 1, catches_term = False\<rparr>)])
     \<lparr>heap := [(1, \<lparr>stderr_buf = \<lparr>content = [], pos = 0\<rparr>, stdout_buf = \<lparr>content = [], pos = 0\<rparr>,
                   cmd = ''sh -c ...'', proc = Some \<lparr>popen_pid = 10, popen_returncode = None\<rparr>,
                   returncode = None, decode_type = ''utf8'', total_time = None\<rparr>)],
       OBJS_TO_CLEANUP := [1]\<rparr>"

definition w_orphan :: world where
  "w_orphan = proc_exit 10 0 0 w_family"



text \<open>The object that \<^verbatim>\<open>CLIResponse(cmd)\<close> builds.\<close>

definition fresh_obj :: "string \<Rightarrow> cli_response" where
  "fresh_obj c =
     \<lparr>stderr_buf = \<lparr>content = [], pos = 0\<rparr>, stdout_buf = \<lparr>content = [], pos = 0\<rparr>,
      cmd = c, proc = None, returncode = None, decode_type = ''utf8'', total_time = None\<rparr>"

text \<open>The state that Popen and the two calls of read\_pipe leave, starting from \<open>w\<close>
  with a new object.\<close>

definition started :: "string \<Rightarrow> program \<Rightarrow> world \<Rightarrow> world" where
  "started c prog w =
     read_pipe Stderr (fresh_ref w) (read_pipe Stdout (fresh_ref w)
       (set_obj (fresh_ref w)
          (\<lambda>obj. obj\<lparr>proc := Some \<lparr>popen_pid = fresh_pid w, popen_returncode = None\<rparr>\<rparr>)
          (w\<lparr>heap := (fresh_ref w, fresh_obj c) # heap w,
             ptable := (fresh_pid w, \<lparr>ppid = python_pid, catches_term = handles_term prog\<rparr>) # ptable w,
             children := (children w)(fresh_pid w \<mapsto> \<lparr>child_program = prog, born = clock w\<rparr>),
             exited := (exited w)(fresh_pid w := None)\<rparr>)))"









text \<open>The module just loaded on a POSIX machine with no other process.\<close>

definition w_boot :: world where
  "w_boot = module_loaded False []"


text \<open>A program that runs for 10000 ticks, catches SIGTERM, and writes one line at its
  start and one after 5000 ticks.\<close>

definition sleeper :: program where
  "sleeper = \<lparr>launches = True, out_lines = [(0, ''zz''), (5000, ''awake'')], err_lines = [],
              exit_status = 0, lifetime = Some 10000, handles_term = True\<rparr>"

text \<open>A command that Popen cannot start.\<close>

definition no_such_binary :: program where
  "no_such_binary = \<lparr>launches = False, out_lines = [], err_lines = [], exit_status = 0,
                     lifetime = Some 0, handles_term = False\<rparr>"








text \<open>The state in which async\_cmd returns for the program sleeper.\<close>

definition sleeper_async :: world where
  "sleeper_async =
     (case async_cmd ''sleep 10'' None sleeper w_boot of Done (obj, w) \<Rightarrow> w | _ \<Rightarrow> w_boot)"

text \<open>That state ten ticks later, after one turn of the pump thread of stdout.\<close>

definition sleeper_polled :: world where
  "sleeper_polled = pump_steps 1 Stdout 1 (sleeper_async\<lparr>clock := 10\<rparr>)"

section \<open>Properties of kill\<close>

lemma same_session_refl [simp]: "same_session w w"
  by (simp add: same_session_def)

lemma same_session_trans: "same_session a b \<Longrightarrow> same_session b c \<Longrightarrow> same_session a c"
  by (simp add: same_session_def)

lemma same_session_proc_exit [simp]: "same_session w (proc_exit p t st w)"
  by (simp add: same_session_def proc_exit_def)

lemma same_session_proc_exits [simp]: "same_session w (proc_exits ps w)"
proof (induction ps arbitrary: w)
  case Nil
  show ?case by simp
next
  case (Cons p ps)
  have "same_session w (proc_exit p (clock w) 0 w)" by simp
  from same_session_trans [OF this Cons.IH] show ?case by simp
qed

lemma os_kill_error: "os_kill p sig w = (Some e, w') \<Longrightarrow> e = ProcessLookupError \<and> w' = w"
  by (auto simp: os_kill_def Let_def split: option.splits if_splits)

lemma os_kill_session: "os_kill p sig w = (r, w') \<Longrightarrow> same_session w w'"
  by (auto simp: os_kill_def Let_def same_session_def proc_exit_def split: option.splits if_splits)

lemma kill_each_error: "kill_each sig qs w = (Some e, w') \<Longrightarrow> e = ProcessLookupError"
  by (induction qs arbitrary: w) (auto split: prod.splits option.splits dest: os_kill_error)

lemma kill_each_session: "kill_each sig qs w = (r, w') \<Longrightarrow> same_session w w'"
proof (induction qs arbitrary: w)
  case Nil
  then show ?case by simp
next
  case (Cons q qs)
  obtain r1 w1 where k: "os_kill q sig w = (r1, w1)" by (cases "os_kill q sig w")
  note f = os_kill_session [OF k]
  show ?case
  proof (cases r1)
    case None
    with Cons.prems k have "kill_each sig qs w1 = (r, w')" by simp
    from same_session_trans [OF f Cons.IH [OF this]] show ?thesis .
  next
    case (Some e)
    with Cons.prems k have "w' = w1" by simp
    with f show ?thesis by simp
  qed
qed

lemma kill_try_error:
  "kill_try p sig gone w = (Some e, w') \<Longrightarrow> e = ProcessLookupError \<or> e = NoSuchProcess"
  by (auto simp: kill_try_def psutil_children_def split: if_splits prod.splits option.splits
      dest: kill_each_error os_kill_error)

lemma kill_try_session: "kill_try p sig gone w = (r, w') \<Longrightarrow> same_session w w'"
proof (cases "alive w p")
  case False
  assume "kill_try p sig gone w = (r, w')"
  with False show ?thesis by (simp add: kill_try_def psutil_children_def)
next
  case True
  assume k: "kill_try p sig gone w = (r, w')"
  obtain r1 w1 where e: "kill_each sig (descendants w p) (proc_exits gone w) = (r1, w1)"
    by (cases "kill_each sig (descendants w p) (proc_exits gone w)")
  have s1: "same_session w w1"
    by (rule same_session_trans [OF same_session_proc_exits kill_each_session [OF e]])
  show ?thesis
  proof (cases r1)
    case (Some e1)
    with k e True have "w' = w1" by (simp add: kill_try_def psutil_children_def)
    with s1 show ?thesis by simp
  next
    case None
    with k e True have "os_kill p sig w1 = (r, w')" by (simp add: kill_try_def psutil_children_def)
    from same_session_trans [OF s1 os_kill_session [OF this]] show ?thesis .
  qed
qed

lemma unregister_fields [simp]:
  "heap (unregister s w) = heap w" "is_windows (unregister s w) = is_windows w"
  "ptable (unregister s w) = ptable w" "delivered (unregister s w) = delivered w"
  "clock (unregister s w) = clock w" "pumps (unregister s w) = pumps w"
  "children (unregister s w) = children w" "exited (unregister s w) = exited w"
  "atexit_hooks (unregister s w) = atexit_hooks w"
  by (simp_all add: unregister_def)

lemma kill_result:
  assumes "map_of (heap w) self = Some obj"
  shows "fst (kill self sig gone w) = None"
  using assms
  by (auto simp: kill_def Let_def split: option.splits prod.splits dest: kill_try_error)

lemma kill_heap: "heap (snd (kill self sig gone w)) = heap w"
  by (auto simp: kill_def Let_def same_session_def split: option.splits prod.splits
      dest!: kill_try_session)

lemma kill_gone_proc:
  assumes "map_of (heap w) self = Some obj" "proc obj = Some po" "\<not> alive w (popen_pid po)"
  shows "kill self sig gone w = (None, unregister self w)"
  using assms by (simp add: kill_def kill_try_def psutil_children_def Let_def)

lemma kill_no_proc:
  assumes "map_of (heap w) self = Some obj" "proc obj = None"
  shows "kill self sig gone w = (None, w)"
  using assms by (simp add: kill_def)


text \<open>
  C4. kill never raises: on any object, whatever the signal and whichever processes
  end by themselves between the enumeration and the signalling, it returns
  normally, and so does a second call after it. On an object with no process it
  changes nothing; on an object whose process is gone it sends no signal and only
  takes the object off OBJS\_TO\_CLEANUP.
\<close>

theorem kill_never_raises:
  assumes "map_of (heap w) self = Some obj"
  shows "fst (kill self sig gone w) = None \<and>
         fst (kill self sig2 gone2 (snd (kill self sig gone w))) = None \<and>
         (proc obj = None \<longrightarrow> kill self sig gone w = (None, w)) \<and>
         (\<forall>po. proc obj = Some po \<and> \<not> alive w (popen_pid po)
               \<longrightarrow> kill self sig gone w = (None, unregister self w))"
proof -
  have "map_of (heap (snd (kill self sig gone w))) self = Some obj"
    using assms by (simp add: kill_heap)
  from kill_result [OF this] kill_result [OF assms] kill_no_proc [OF assms] kill_gone_proc [OF assms]
  show ?thesis by blast
qed

lemma w_family_obj:
  "map_of (heap w_family) 1 =
     Some \<lparr>stderr_buf = \<lparr>content = [], pos = 0\<rparr>, stdout_buf = \<lparr>content = [], pos = 0\<rparr>,
           cmd = ''sh -c ...'', proc = Some \<lparr>popen_pid = 10, popen_returncode = None\<rparr>,
           returncode = None, decode_type = ''utf8'', total_time = None\<rparr>"
  by (simp add: w_family_def)

theorem kill_never_raises_witness:
  "fst (kill 1 None [11] w_family) = None \<and>
   fst (kill 1 (Some SIGTERM) [] (snd (kill 1 None [11] w_family))) = None"
  using kill_never_raises [OF w_family_obj, of None "[11]" "Some SIGTERM" "[]"] by simp


lemma alive_ct: "alive w q = (ct w q \<noteq> None)"
  by (simp add: alive_def ct_def)

lemma map_of_exit:
  "map_of (map (\<lambda>(q, pr). (q, adopt p pr)) (filter (\<lambda>(q, pr). q \<noteq> p) t)) r =
     (if r = p then None else map_option (adopt p) (map_of t r))"
  by (induction t) auto

lemma catches_term_adopt [simp]: "catches_term (adopt p pr) = catches_term pr"
  by (simp add: adopt_def)

lemma ct_proc_exit: "ct (proc_exit p t st w) = (ct w)(p := None)"
  by (rule ext) (simp add: ct_def proc_exit_def map_of_exit option.map_comp comp_def)

lemma ct_proc_exits: "ct (proc_exits ps w) r = (if r \<in> set ps then None else ct w r)"
  by (induction ps arbitrary: w) (auto simp: ct_proc_exit)

lemma os_kill_fatal:
  assumes "ct w q = Some c" "is_windows w \<or> sig = SIGKILL \<or> \<not> c"
  shows "\<exists>w'. os_kill q sig w = (None, w') \<and> ct w' = (ct w)(q := None) \<and>
           delivered w' = delivered w @ [(q, sig)] \<and> is_windows w' = is_windows w"
proof -
  from assms(1) obtain pr where pr: "map_of (ptable w) q = Some pr" "catches_term pr = c"
    by (auto simp: ct_def)
  let ?w = "w\<lparr>delivered := delivered w @ [(q, sig)]\<rparr>"
  have ct: "ct ?w = ct w" by (rule ext) (simp add: ct_def)
  let ?st = "killed_status (is_windows w) sig"
  from pr assms(2) have "os_kill q sig w = (None, proc_exit q (clock w) ?st ?w)"
    by (auto simp: os_kill_def fatal_def Let_def)
  moreover have "ct (proc_exit q (clock w) ?st ?w) = (ct w)(q := None)"
    by (simp add: ct_proc_exit ct)
  moreover have "delivered (proc_exit q (clock w) ?st ?w) = delivered w @ [(q, sig)]"
    "is_windows (proc_exit q (clock w) ?st ?w) = is_windows w"
    by (simp_all add: proc_exit_def)
  ultimately show ?thesis by simp
qed


lemma proc_exits_is_windows [simp]: "is_windows (proc_exits ps w) = is_windows w"
  using same_session_proc_exits [of w ps] by (simp add: same_session_def)

lemma delivered_proc_exits [simp]: "delivered (proc_exits ps w) = delivered w"
  by (induction ps arbitrary: w) (simp_all add: proc_exit_def)

lemma kill_each_fatal:
  assumes "distinct qs"
    and "\<forall>q\<in>set qs. \<exists>c. ct w q = Some c \<and> (is_windows w \<or> sig = SIGKILL \<or> \<not> c)"
  shows "\<exists>w'. kill_each sig qs w = (None, w') \<and>
           ct w' = (\<lambda>r. if r \<in> set qs then None else ct w r) \<and>
           delivered w' = delivered w @ map (\<lambda>q. (q, sig)) qs \<and> is_windows w' = is_windows w"
  using assms
proof (induction qs arbitrary: w)
  case Nil
  then show ?case by simp
next
  case (Cons q qs)
  from Cons.prems obtain c where c: "ct w q = Some c" "is_windows w \<or> sig = SIGKILL \<or> \<not> c"
    by auto
  from os_kill_fatal [OF c] obtain w1 where w1: "os_kill q sig w = (None, w1)"
    "ct w1 = (ct w)(q := None)" "delivered w1 = delivered w @ [(q, sig)]"
    "is_windows w1 = is_windows w" by blast
  have d: "distinct qs" and nq: "q \<notin> set qs" using Cons.prems(1) by auto
  have "\<forall>r\<in>set qs. \<exists>c. ct w1 r = Some c \<and> (is_windows w1 \<or> sig = SIGKILL \<or> \<not> c)"
    using Cons.prems(2) nq w1(2,4) by auto
  from Cons.IH [OF d this] obtain w' where w': "kill_each sig qs w1 = (None, w')"
    "ct w' = (\<lambda>r. if r \<in> set qs then None else ct w1 r)"
    "delivered w' = delivered w1 @ map (\<lambda>q. (q, sig)) qs" "is_windows w' = is_windows w1"
    by blast
  have "ct w' = (\<lambda>r. if r \<in> set (q # qs) then None else ct w r)"
    by (rule ext) (simp add: w'(2) w1(2))
  with w1 w' show ?case by simp
qed

lemma distinct_descendants: "distinct (descendants w p)" "p \<notin> set (descendants w p)"
  by (auto simp: descendants_def)

lemma descendants_alive: "q \<in> set (descendants w p) \<Longrightarrow> alive w q"
proof -
  assume "q \<in> set (descendants w p)"
  then have "reaches (ptable w) (length (ptable w)) q p" by (simp add: descendants_def)
  then show ?thesis by (cases "length (ptable w)") (auto simp: alive_def split: option.splits)
qed

lemma ends_ct:
  "alive w q \<Longrightarrow> ends w sig q \<Longrightarrow>
     \<exists>c. ct w q = Some c \<and> (is_windows w \<or> resolve w sig = SIGKILL \<or> \<not> c)"
  by (auto simp: alive_def ends_def ct_def fatal_def split: option.splits)

lemma kill_try_fatal:
  assumes al: "alive w p"
    and gone: "set gone \<inter> set (p # descendants w p) = {}"
    and ends: "\<forall>q\<in>set (p # descendants w p). ends w sig q"
  shows "\<exists>w'. kill_try p (resolve w sig) gone w = (None, w') \<and>
           ct w' = (\<lambda>r. if r \<in> set (p # descendants w p) \<union> set gone then None else ct w r) \<and>
           delivered w' = delivered w @ map (\<lambda>q. (q, resolve w sig)) (descendants w p @ [p])"
proof -
  let ?cs = "descendants w p" and ?s = "resolve w sig" and ?w0 = "proc_exits gone w"
  have c0: "\<And>r. ct ?w0 r = (if r \<in> set gone then None else ct w r)" by (rule ct_proc_exits)
  have "\<forall>q\<in>set ?cs. \<exists>c. ct ?w0 q = Some c \<and> (is_windows ?w0 \<or> ?s = SIGKILL \<or> \<not> c)"
  proof
    fix q assume q: "q \<in> set ?cs"
    with gone have "q \<notin> set gone" by auto
    moreover from q ends have "ends w sig q" by simp
    from ends_ct [OF descendants_alive [OF q] this]
    obtain c where "ct w q = Some c" "is_windows w \<or> ?s = SIGKILL \<or> \<not> c" by blast
    ultimately show "\<exists>c. ct ?w0 q = Some c \<and> (is_windows ?w0 \<or> ?s = SIGKILL \<or> \<not> c)"
      by (simp add: c0)
  qed
  from kill_each_fatal [OF distinct_descendants(1) this]
  obtain w1 where w1: "kill_each ?s ?cs ?w0 = (None, w1)"
    "ct w1 = (\<lambda>r. if r \<in> set ?cs then None else ct ?w0 r)"
    "delivered w1 = delivered ?w0 @ map (\<lambda>q. (q, ?s)) ?cs" "is_windows w1 = is_windows ?w0"
    by blast
  from ends have "ends w sig p" by simp
  from ends_ct [OF al this] obtain c where c: "ct w p = Some c"
    "is_windows w \<or> ?s = SIGKILL \<or> \<not> c" by blast
  from gone have "p \<notin> set gone" by auto
  with c distinct_descendants(2) [of p w] have "ct w1 p = Some c"
    by (simp add: w1(2) c0)
  moreover from c(2) w1(4) have "is_windows w1 \<or> ?s = SIGKILL \<or> \<not> c" by simp
  ultimately obtain w' where w': "os_kill p ?s w1 = (None, w')" "ct w' = (ct w1)(p := None)"
    "delivered w' = delivered w1 @ [(p, ?s)]"
    using os_kill_fatal by blast
  have "kill_try p ?s gone w = (None, w')"
    using al w1(1) w'(1) by (simp add: kill_try_def psutil_children_def)
  moreover have "ct w' = (\<lambda>r. if r \<in> set (p # ?cs) \<union> set gone then None else ct w r)"
    by (rule ext) (simp add: w'(2) w1(2) c0)
  moreover have "delivered w' = delivered w @ map (\<lambda>q. (q, ?s)) (?cs @ [p])"
    by (simp add: w'(3) w1(3))
  ultimately show ?thesis by blast
qed

lemma ct_unregister [simp]: "ct (unregister s w) = ct w"
  by (rule ext) (simp add: ct_def)

lemma kill_resolve:
  "map_of (heap w) self = Some obj \<Longrightarrow> proc obj = Some po \<Longrightarrow>
   kill self sig gone w =
     (case kill_try (popen_pid po) (resolve w sig) gone w of
        (Some e, w') \<Rightarrow> if e = ProcessLookupError \<or> e = NoSuchProcess
                         then (None, unregister self w') else (Some e, w')
      | (None, w') \<Rightarrow> (None, unregister self w'))"
  by (simp add: kill_def Let_def)

lemma kill_subtree_aux:
  assumes "map_of (heap w) self = Some obj" and "proc obj = Some po" and "alive w (popen_pid po)"
    and "set gone \<inter> set (popen_pid po # descendants w (popen_pid po)) = {}"
    and "\<forall>q\<in>set (popen_pid po # descendants w (popen_pid po)). ends w sig q"
  shows "\<exists>w'. kill self sig gone w = (None, unregister self w') \<and>
           delivered w' = delivered w @ map (\<lambda>q. (q, resolve w sig))
                                          (descendants w (popen_pid po) @ [popen_pid po]) \<and>
           (\<forall>q\<in>set (popen_pid po # descendants w (popen_pid po)). \<not> alive w' q) \<and>
           (\<forall>q. q \<notin> set (popen_pid po # descendants w (popen_pid po)) \<and> q \<notin> set gone
                 \<longrightarrow> alive w' q = alive w q)"
proof -
  let ?p = "popen_pid po"
  from kill_try_fatal [OF assms(3,4,5)] obtain w' where
    w': "kill_try ?p (resolve w sig) gone w = (None, w')"
    "ct w' = (\<lambda>r. if r \<in> set (?p # descendants w ?p) \<union> set gone then None else ct w r)"
    "delivered w' = delivered w @ map (\<lambda>q. (q, resolve w sig)) (descendants w ?p @ [?p])"
    by blast
  have k: "kill self sig gone w = (None, unregister self w')"
    by (simp add: kill_resolve [OF assms(1,2)] w'(1))
  show ?thesis
    using k w'(3) by (auto simp: alive_ct w'(2))
qed

lemma ends_default: "ends w None q"
  by (simp add: ends_def resolve_def fatal_def split: option.splits)

lemma alive_unregister [simp]: "alive (unregister s w) q = alive w q"
  by (simp add: alive_def)

text \<open>
  C3, as amended. When the tracked process is still in the process table, no
  process that kill enumerates ends by itself before it is signalled, and the
  signal sent ends each of them (as the default signal always does), kill returns
  normally, has delivered the signal to every descendant of the tracked process
  and then to the tracked process itself, in this order, and afterwards neither
  the tracked process nor any of its descendants is alive.
\<close>

theorem kill_subtree:
  assumes "map_of (heap w) self = Some obj" and "proc obj = Some po" and "alive w (popen_pid po)"
    and "set gone \<inter> set (popen_pid po # descendants w (popen_pid po)) = {}"
    and "\<forall>q\<in>set (popen_pid po # descendants w (popen_pid po)). ends w sig q"
  shows "fst (kill self sig gone w) = None \<and>
         delivered (snd (kill self sig gone w)) =
           delivered w @ map (\<lambda>q. (q, resolve w sig))
                           (descendants w (popen_pid po) @ [popen_pid po]) \<and>
         (\<forall>q\<in>set (popen_pid po # descendants w (popen_pid po)).
            \<not> alive (snd (kill self sig gone w)) q)"
proof -
  from kill_subtree_aux [OF assms] obtain w' where
    "kill self sig gone w = (None, unregister self w')"
    "delivered w' = delivered w @ map (\<lambda>q. (q, resolve w sig))
                                          (descendants w (popen_pid po) @ [popen_pid po])"
    "\<forall>q\<in>set (popen_pid po # descendants w (popen_pid po)). \<not> alive w' q"
    by blast
  then show ?thesis by simp
qed

lemma w_family_proc: "proc (the (map_of (heap w_family) 1)) = Some \<lparr>popen_pid = 10, popen_returncode = None\<rparr>"
  by (simp add: w_family_def)

lemma w_family_desc: "descendants w_family 10 = [11, 12]"
  by code_simp

lemma w_family_alive: "alive w_family 10"
  by code_simp

theorem kill_subtree_witness:
  "delivered (snd (kill 1 None [20] w_family)) = [(11, SIGKILL), (12, SIGKILL), (10, SIGKILL)] \<and>
   \<not> alive (snd (kill 1 None [20] w_family)) 10 \<and>
   \<not> alive (snd (kill 1 None [20] w_family)) 11 \<and>
   \<not> alive (snd (kill 1 None [20] w_family)) 12"
proof -
  let ?po = "\<lparr>popen_pid = 10, popen_returncode = None\<rparr>"
  have a: "alive w_family (popen_pid ?po)" using w_family_alive by simp
  have p: "proc (the (map_of (heap w_family) 1)) = Some ?po" by (rule w_family_proc)
  have o: "map_of (heap w_family) 1 = Some (the (map_of (heap w_family) 1))"
    by (simp add: w_family_def)
  have g: "set [20] \<inter> set (popen_pid ?po # descendants w_family (popen_pid ?po)) = {}"
    by (simp add: w_family_desc)
  have e: "\<forall>q\<in>set (popen_pid ?po # descendants w_family (popen_pid ?po)). ends w_family None q"
    by (simp add: ends_default)
  have r: "resolve w_family None = SIGKILL" by (simp add: resolve_def w_family_def module_loaded_def)
  have d: "delivered w_family = []" by (simp add: w_family_def module_loaded_def)
  from kill_subtree [OF o p a g e] show ?thesis
    by (simp add: w_family_desc r d)
qed

text \<open>
  C3 as stated fails: once the tracked process 10 has ended, its child 11 and
  grandchild 12 still run, but kill on the object that tracks 10 finds no process
  10, sends no signal at all, and leaves 11 and 12 alive.
\<close>

theorem kill_subtree_counterexample:
  "descendants w_family 10 = [11, 12] \<and>
   w_orphan = proc_exit 10 0 0 w_family \<and>
   map_option (map_option popen_pid \<circ> proc) (map_of (heap w_orphan) 1) = Some (Some 10) \<and>
   kill 1 None [] w_orphan = (None, unregister 1 w_orphan) \<and>
   delivered (snd (kill 1 None [] w_orphan)) = [] \<and>
   alive (snd (kill 1 None [] w_orphan)) 11 \<and>
   alive (snd (kill 1 None [] w_orphan)) 12"
proof -
  have o: "map_of (heap w_orphan) 1 = map_of (heap w_family) 1"
    by (simp add: w_orphan_def proc_exit_def)
  have n: "\<not> alive w_orphan 10" by code_simp
  have n': "\<not> alive w_orphan (popen_pid \<lparr>popen_pid = 10, popen_returncode = None\<rparr>)"
    using n by simp
  have k: "kill 1 None [] w_orphan = (None, unregister 1 w_orphan)"
    by (rule kill_gone_proc [OF o [unfolded w_family_obj] _ n']) simp
  have h3: "map_option (map_option popen_pid \<circ> proc) (map_of (heap w_orphan) 1) = Some (Some 10)"
    by code_simp
  have h5: "delivered (snd (kill 1 None [] w_orphan)) = []"
    unfolding k by code_simp
  have h6: "alive (snd (kill 1 None [] w_orphan)) 11"
    unfolding k by code_simp
  have h7: "alive (snd (kill 1 None [] w_orphan)) 12"
    unfolding k by code_simp
  show ?thesis
    by (intro conjI) (rule w_family_desc, rule w_orphan_def, rule h3, rule k, rule h5, rule h6, rule h7)
qed













section \<open>Properties of the execution engine\<close>

subsection \<open>Objects and buffers\<close>

lemma map_of_set_obj:
  "map_of (heap (set_obj self f w)) r =
     (if r = self then map_option f (map_of (heap w) r) else map_of (heap w) r)"
proof -
  have "map_of (map (\<lambda>(r, obj). (r, if r = self then f obj else obj)) h) r =
          (if r = self then map_option f (map_of h r) else map_of h r)" for h
    by (induction h) auto
  then show ?thesis by (simp add: set_obj_def)
qed

lemma set_obj_fields [simp]:
  "is_windows (set_obj self f w) = is_windows w"
  "OBJS_TO_CLEANUP (set_obj self f w) = OBJS_TO_CLEANUP w"
  "atexit_hooks (set_obj self f w) = atexit_hooks w"
  "pumps (set_obj self f w) = pumps w" "ptable (set_obj self f w) = ptable w"
  "children (set_obj self f w) = children w" "exited (set_obj self f w) = exited w"
  "delivered (set_obj self f w) = delivered w" "clock (set_obj self f w) = clock w"
  by (simp_all add: set_obj_def)

lemma set_obj_set_obj: "set_obj self f (set_obj self g w) = set_obj self (f \<circ> g) w"
  by (simp add: set_obj_def comp_def case_prod_unfold)

lemma set_obj_pumps_upd: "set_obj self f (w\<lparr>pumps := P\<rparr>) = (set_obj self f w)\<lparr>pumps := P\<rparr>"
  by (simp add: set_obj_def)

lemma set_obj_id: "set_obj self (\<lambda>obj. obj) w = w"
proof -
  have "map (\<lambda>(r, obj). (r, if r = self then obj else obj)) h = h" for h :: "(obj_ref \<times> cli_response) list"
    by (induction h) auto
  then show ?thesis by (simp add: set_obj_def)
qed




lemma bio_write_end:
  "pos b = length (content b) \<Longrightarrow> bio_write s b = \<lparr>content = content b @ s, pos = pos b + length s\<rparr>"
  by (simp add: bio_write_def)

lemma buf_write_other [simp]:
  "proc (buf_write st l obj) = proc obj" "returncode (buf_write st l obj) = returncode obj"
  "total_time (buf_write st l obj) = total_time obj" "cmd (buf_write st l obj) = cmd obj"
  "st' \<noteq> st \<Longrightarrow> buf_of st' (buf_write st l obj) = buf_of st' obj"
  by (cases st; cases st'; simp add: buf_write_def buf_of_def)+

lemma buf_of_buf_write [simp]: "buf_of st (buf_write st l obj) = bio_write l (buf_of st obj)"
  by (cases st) (simp_all add: buf_write_def buf_of_def)

lemma fold_buf_write_other [simp]:
  "proc (fold (buf_write st) ls obj) = proc obj"
  "returncode (fold (buf_write st) ls obj) = returncode obj"
  "total_time (fold (buf_write st) ls obj) = total_time obj"
  "st' \<noteq> st \<Longrightarrow> buf_of st' (fold (buf_write st) ls obj) = buf_of st' obj"
  by (induction ls arbitrary: obj) simp_all

lemma fold_buf_write_content:
  "pos (buf_of st obj) = length (content (buf_of st obj)) \<Longrightarrow>
     buf_of st (fold (buf_write st) ls obj) =
       \<lparr>content = content (buf_of st obj) @ concat ls,
        pos = length (content (buf_of st obj)) + length (concat ls)\<rparr>"
proof (induction ls arbitrary: obj)
  case Nil
  then show ?case by simp
next
  case (Cons l ls)
  have "pos (buf_of st (buf_write st l obj)) = length (content (buf_of st (buf_write st l obj)))"
    using Cons.prems by (simp add: bio_write_end)
  from Cons.IH [OF this] Cons.prems show ?case by (simp add: bio_write_end)
qed

subsection \<open>The pump threads\<close>

lemma avail_frame:
  "children w' = children w \<Longrightarrow> exited w' = exited w \<Longrightarrow> clock w' = clock w \<Longrightarrow>
     avail w' p st = avail w p st"
proof -
  assume a: "children w' = children w" "exited w' = exited w" "clock w' = clock w"
  then have "written_until w' p = written_until w p"
    by (simp add: written_until_def cong: option.case_cong)
  with a show ?thesis by (simp add: avail_def cong: option.case_cong)
qed

lemma pump_steps_finished:
  "pumps w (self, st) = Some pm \<Longrightarrow> finished pm \<Longrightarrow> pump_steps n st self w = w"
proof (induction n)
  case 0
  show ?case by simp
next
  case (Suc n)
  have "pump_step st self w = w"
    using Suc.prems by (simp add: pump_step_def split: option.splits)
  with Suc show ?case by simp
qed

lemma pump_steps_eq:
  assumes "map_of (heap w) self = Some obj" and "proc obj = Some po"
    and "pumps w (self, st) = Some pm" and "\<not> finished pm"
  shows "pump_steps n st self w =
           (set_obj self (fold (buf_write st) (take n (drop (copied pm) (avail w (popen_pid po) st)))) w)
             \<lparr>pumps := (pumps w)((self, st) \<mapsto>
                 \<lparr>copied = copied pm + length (take n (drop (copied pm) (avail w (popen_pid po) st))),
                  finished = (exited w (popen_pid po) \<noteq> None \<and>
                              length (drop (copied pm) (avail w (popen_pid po) st)) < n)\<rparr>)\<rparr>"
  using assms
proof (induction n arbitrary: w obj pm)
  case 0
  have "(pumps w)((self, st) \<mapsto> \<lparr>copied = copied pm, finished = False\<rparr>) = pumps w"
    using "0.prems"(3,4) by (auto simp: fun_eq_iff)
  then show ?case by (simp add: set_obj_id)
next
  case (Suc n)
  let ?ls = "avail w (popen_pid po) st" and ?c = "copied pm"
  consider (copy) "?c < length ?ls" | (eof) "\<not> ?c < length ?ls" "exited w (popen_pid po) \<noteq> None"
    | (wait) "\<not> ?c < length ?ls" "exited w (popen_pid po) = None" by blast
  then show ?case
  proof cases
    case copy
    let ?w1 = "(set_obj self (buf_write st (?ls ! ?c)) w)
                 \<lparr>pumps := (pumps w)((self, st) \<mapsto> pm\<lparr>copied := Suc ?c\<rparr>)\<rparr>"
    have s: "pump_step st self w = ?w1"
      using Suc.prems copy by (simp add: pump_step_def)
    have o1: "map_of (heap ?w1) self = Some (buf_write st (?ls ! ?c) obj)"
      using Suc.prems(1) map_of_set_obj [of self "buf_write st (?ls ! ?c)" w self]
      by (simp add: set_obj_def)
    have a1: "avail ?w1 (popen_pid po) st = ?ls" by (rule avail_frame) simp_all
    have t: "take (Suc n) (drop ?c ?ls) = ?ls ! ?c # take n (drop (Suc ?c) ?ls)"
      using copy by (simp add: Cons_nth_drop_Suc [symmetric])
    have d: "length (drop ?c ?ls) < Suc n \<longleftrightarrow> length (drop (Suc ?c) ?ls) < n"
      using copy by auto
    have p1: "proc (buf_write st (?ls ! ?c) obj) = Some po" using Suc.prems(2) by simp
    have m1: "pumps ?w1 (self, st) = Some (pm\<lparr>copied := Suc ?c\<rparr>)" by simp
    have n1: "\<not> finished (pm\<lparr>copied := Suc ?c\<rparr>)" using Suc.prems(4) by simp
    let ?G = "fold (buf_write st) (take n (drop (Suc ?c) ?ls))"
    let ?pm' = "\<lparr>copied = Suc ?c + length (take n (drop (Suc ?c) ?ls)),
                 finished = (exited w (popen_pid po) \<noteq> None \<and> length (drop (Suc ?c) ?ls) < n)\<rparr>"
    have "pump_steps (Suc n) st self w = pump_steps n st self ?w1" by (simp add: s)
    also have "\<dots> = (set_obj self ?G ?w1)\<lparr>pumps := (pumps ?w1)((self, st) \<mapsto> ?pm')\<rparr>"
    proof -
      have e1: "exited ?w1 = exited w" by simp
      have c1: "copied (pm\<lparr>copied := Suc ?c\<rparr>) = Suc ?c" by simp
      show ?thesis by (rule Suc.IH [OF o1 p1 m1 n1, unfolded a1 e1 c1])
    qed
    also have "\<dots> = (set_obj self (?G \<circ> buf_write st (?ls ! ?c)) w)
                         \<lparr>pumps := (pumps w)((self, st) \<mapsto> ?pm')\<rparr>"
      by (simp add: set_obj_pumps_upd set_obj_set_obj)
    finally have fin: "pump_steps (Suc n) st self w =
        (set_obj self (?G \<circ> buf_write st (?ls ! ?c)) w)
           \<lparr>pumps := (pumps w)((self, st) \<mapsto> ?pm')\<rparr>" .
    have f: "fold (buf_write st) (take (Suc n) (drop ?c ?ls)) = ?G \<circ> buf_write st (?ls ! ?c)"
      by (simp add: t)
    have l: "?c + length (take (Suc n) (drop ?c ?ls)) = Suc ?c + length (take n (drop (Suc ?c) ?ls))"
      by (simp add: t)
    show ?thesis unfolding fin f l d by (rule refl)
  next
    case eof
    let ?r = "\<lparr>copied = ?c, finished = True\<rparr>"
    let ?w1 = "w\<lparr>pumps := (pumps w)((self, st) \<mapsto> ?r)\<rparr>"
    have rp: "pm\<lparr>finished := True\<rparr> = ?r" by (cases pm) simp
    have s: "pump_step st self w = ?w1"
      using Suc.prems eof unfolding rp [symmetric] by (simp add: pump_step_def)
    have st: "pump_steps n st self ?w1 = ?w1"
      by (rule pump_steps_finished [where pm = ?r]) simp_all
    have dr: "drop ?c ?ls = []" using eof(1) by simp
    have e: "(exited w (popen_pid po) \<noteq> None \<and> length ([]::bytes list) < Suc n) = True"
      using eof(2) by simp
    have i: "set_obj self (fold (buf_write st) (take (Suc n) [])) w = w"
      using set_obj_id [of self w] by (simp add: id_def)
    show ?thesis unfolding pump_steps.simps s st dr e i by (simp add: fun_upd_def)
  next
    case wait
    have s: "pump_step st self w = w"
      using Suc.prems wait by (simp add: pump_step_def)
    from Suc.IH [OF Suc.prems] wait show ?thesis by (simp add: s)
  qed
qed

lemma proc_attached_clock [simp]: "proc_attached self (w\<lparr>clock := t\<rparr>) = proc_attached self w"
  by (simp add: proc_attached_def)

lemma poll_attached: "proc_attached self w \<Longrightarrow> poll self w = Some w"
  by (subst poll.simps) simp

lemma poll_returns_attached:
  assumes "poll self w = Some y"
  shows "proc_attached self w"
proof (rule poll.raw_induct [where P = "\<lambda>self w y. proc_attached self w", OF _ assms])
  fix f self w and y :: world
  assume ih: "\<And>self w y. f self w = Some y \<Longrightarrow> proc_attached self w"
    and st: "(if proc_attached self w then Some w else f self (w\<lparr>clock := Suc (clock w)\<rparr>)) = Some y"
  show "proc_attached self w"
  proof (cases "proc_attached self w")
    case True
    then show ?thesis .
  next
    case False
    with st have "f self (w\<lparr>clock := Suc (clock w)\<rparr>) = Some y" by simp
    from ih [OF this] show ?thesis by simp
  qed
qed

lemma poll_diverges: "\<not> proc_attached self w \<Longrightarrow> poll self w = None"
  using poll_returns_attached [of self w] by (cases "poll self w") auto

subsection \<open>The statements of \_exec\_cmd one by one\<close>



lemma wait_step_blocked:
  assumes "map_of (heap w) self = Some obj" and "proc obj = Some po" and "popen_returncode po = None"
    and "exited w (popen_pid po) = None" and "children w (popen_pid po) = Some ch"
    and "lifetime (child_program ch) = None"
  shows "wait_step self w = Blocked"
  using assms by (simp add: wait_step_def proc_wait_def)




lemma finalize_no_proc:
  assumes "map_of (heap w) self = Some obj" and "proc obj = None"
  shows "finalize self start w = Raised AttributeError w"
  using assms by (simp add: finalize_def)

subsection \<open>What Popen and read\_pipe leave\<close>

lemma new_response_eq:
  "new_response c w = (fresh_ref w, w\<lparr>heap := (fresh_ref w, fresh_obj c) # heap w\<rparr>)"
  by (simp add: new_response_def fresh_obj_def)

lemma target_start_launch:
  "launches prog \<Longrightarrow>
     target_start (fresh_ref w) prog (w\<lparr>heap := (fresh_ref w, fresh_obj c) # heap w\<rparr>) =
       Done (started c prog w)"
  by (simp add: target_start_def popen_call_def started_def fresh_pid_def)

lemma target_start_failure:
  "\<not> launches prog \<Longrightarrow> target_start self prog w = Raised LaunchFailure w"
  by (simp add: target_start_def popen_call_def)

lemma started_facts:
  "map_of (heap (started c prog w)) (fresh_ref w) =
     Some ((fresh_obj c)\<lparr>proc := Some \<lparr>popen_pid = fresh_pid w, popen_returncode = None\<rparr>\<rparr>)"
  "pumps (started c prog w) (fresh_ref w, st) = Some \<lparr>copied = 0, finished = False\<rparr>"
  "children (started c prog w) (fresh_pid w) = Some \<lparr>child_program = prog, born = clock w\<rparr>"
  "exited (started c prog w) (fresh_pid w) = None"
  "clock (started c prog w) = clock w"
  "OBJS_TO_CLEANUP (started c prog w) = OBJS_TO_CLEANUP w"
  "atexit_hooks (started c prog w) = atexit_hooks w"
  "is_windows (started c prog w) = is_windows w"
  "alive (started c prog w) (fresh_pid w)"
  by (cases st; simp add: started_def read_pipe_def map_of_set_obj alive_def)+


lemma async_cmd_launch:
  assumes "launches prog"
  shows "async_cmd c timeout prog w =
           Done (fresh_ref w,
                 (started c prog w)\<lparr>OBJS_TO_CLEANUP := OBJS_TO_CLEANUP w @ [fresh_ref w]\<rparr>)"
proof -
  have "proc_attached (fresh_ref w) (started c prog w)"
    by (simp add: proc_attached_def started_facts)
  from poll_attached [OF this] assms show ?thesis
    by (simp add: async_cmd_def new_response_eq target_start_launch started_facts)
qed

lemma no_launch:
  assumes "\<not> launches prog"
  shows "exec_cmd c None prog w =
           Raised LaunchFailure (w\<lparr>heap := (fresh_ref w, fresh_obj c) # heap w\<rparr>)"
    and "exec_cmd c (Some T) prog w =
           Raised AttributeError (w\<lparr>heap := (fresh_ref w, fresh_obj c) # heap w\<rparr>)"
    and "async_cmd c timeout prog w = Blocked"
proof -
  let ?w0 = "w\<lparr>heap := (fresh_ref w, fresh_obj c) # heap w\<rparr>"
  have o: "map_of (heap ?w0) (fresh_ref w) = Some (fresh_obj c)" by simp
  have p: "proc (fresh_obj c) = None" by (simp add: fresh_obj_def)
  show "exec_cmd c None prog w = Raised LaunchFailure ?w0"
    using assms
    by (simp add: exec_cmd_def exec_cmd_impl_def exec_trace_def new_response_eq target_start_failure)
  show "exec_cmd c (Some T) prog w = Raised AttributeError ?w0"
    using assms finalize_no_proc [OF o p]
    by (simp add: exec_cmd_def exec_cmd_impl_def exec_trace_def new_response_eq target_start_failure)
  have "\<not> proc_attached (fresh_ref w) ?w0" using o p by (simp add: proc_attached_def)
  from poll_diverges [OF this] assms show "async_cmd c timeout prog w = Blocked"
    by (simp add: async_cmd_def new_response_eq target_start_failure)
qed





lemma buf_of_fields [simp]:
  "buf_of st (obj\<lparr>returncode := r\<rparr>) = buf_of st obj"
  "buf_of st (obj\<lparr>total_time := tt\<rparr>) = buf_of st obj"
  "buf_of st (obj\<lparr>proc := pr\<rparr>) = buf_of st obj"
  by (cases st; simp add: buf_of_def)+












text \<open>
  C2, on a command that cannot be started. Without a timeout exec\_cmd raises the
  launch error. With a timeout it raises AttributeError instead: the launch error
  ends the thread of line 143 and line 150 reads \<^verbatim>\<open>cmd_obj.proc.returncode\<close>
  with no process attached. async\_cmd never returns: the loop of line 166 waits
  for a process that the dead thread will not attach.
\<close>

theorem launch_failure_modes:
  "exec_cmd ''/no/such/binary'' None no_such_binary w_boot =
     Raised LaunchFailure (snd (new_response ''/no/such/binary'' w_boot)) \<and>
   exec_cmd ''/no/such/binary'' (Some 5) no_such_binary w_boot =
     Raised AttributeError (snd (new_response ''/no/such/binary'' w_boot)) \<and>
   async_cmd ''/no/such/binary'' None no_such_binary w_boot = Blocked \<and>
   async_cmd ''/no/such/binary'' (Some 5) no_such_binary w_boot = Blocked"
proof -
  have "\<not> launches no_such_binary" by (simp add: no_such_binary_def)
  from no_launch [OF this] show ?thesis by (simp add: new_response_eq)
qed























lemma clear_buffers_eq:
  "map_of (heap w) self = Some obj \<Longrightarrow>
   clear_buffers self w =
     (None, set_obj self
              (\<lambda>obj. obj\<lparr>stdout_buf := bio_truncate (bio_seek 0 (stdout_buf obj)),
                         stderr_buf := bio_truncate (bio_seek 0 (stderr_buf obj))\<rparr>) w)"
  by (simp add: clear_buffers_def)

text \<open>
  C9. On any object, at any time, clear\_buffers returns normally and leaves both
  stdout and stderr empty; and in any later state of the clock, after \<open>n\<close> more
  turns of a pump thread that is still running, the buffer holds exactly the next
  lines that the thread has copied since, starting from empty.
\<close>

theorem clear_buffers_empties:
  assumes "map_of (heap w) self = Some obj"
  shows "fst (clear_buffers self w) = None \<and>
         stdout self (snd (clear_buffers self w)) = Some [] \<and>
         stderr self (snd (clear_buffers self w)) = Some [] \<and>
         (\<forall>st po pm n t.
            proc obj = Some po \<and> pumps w (self, st) = Some pm \<and> \<not> finished pm \<longrightarrow>
            map_option (\<lambda>obj. getvalue (buf_of st obj))
              (map_of (heap (pump_steps n st self ((snd (clear_buffers self w))\<lparr>clock := t\<rparr>))) self) =
              Some (concat (take n (drop (copied pm) (avail (w\<lparr>clock := t\<rparr>) (popen_pid po) st)))))"
proof -
  let ?clr = "\<lambda>obj. obj\<lparr>stdout_buf := bio_truncate (bio_seek 0 (stdout_buf obj)),
                         stderr_buf := bio_truncate (bio_seek 0 (stderr_buf obj))\<rparr>"
  let ?w1 = "set_obj self ?clr w"
  have e: "clear_buffers self w = (None, ?w1)" by (rule clear_buffers_eq [OF assms])
  have o1: "map_of (heap ?w1) self = Some (?clr obj)" using assms by (simp add: map_of_set_obj)
  have b0: "buf_of st (?clr obj) = \<lparr>content = [], pos = 0\<rparr>" for st
    by (cases st) (simp_all add: buf_of_def bio_truncate_def bio_seek_def)
  have so: "stdout self ?w1 = Some []" "stderr self ?w1 = Some []"
    using o1 b0 [of Stdout] b0 [of Stderr] by (simp_all add: stdout_def stderr_def getvalue_def buf_of_def)
  have pl: "map_option (\<lambda>obj. getvalue (buf_of st obj))
              (map_of (heap (pump_steps n st self (?w1\<lparr>clock := t\<rparr>))) self) =
              Some (concat (take n (drop (copied pm) (avail (w\<lparr>clock := t\<rparr>) (popen_pid po) st))))"
    if h: "proc obj = Some po \<and> pumps w (self, st) = Some pm \<and> \<not> finished pm" for st po pm n t
  proof -
    let ?w2 = "?w1\<lparr>clock := t\<rparr>"
    have o2: "map_of (heap ?w2) self = Some (?clr obj)" using o1 by simp
    have p2: "proc (?clr obj) = Some po" using h by simp
    have m2: "pumps ?w2 (self, st) = Some pm" using h by simp
    have nf: "\<not> finished pm" using h by simp
    have a2: "avail ?w2 (popen_pid po) st = avail (w\<lparr>clock := t\<rparr>) (popen_pid po) st"
      by (rule avail_frame) simp_all
    let ?ls = "take n (drop (copied pm) (avail (w\<lparr>clock := t\<rparr>) (popen_pid po) st))"
    have "map_of (heap (pump_steps n st self ?w2)) self = Some (fold (buf_write st) ?ls (?clr obj))"
      unfolding pump_steps_eq [OF o2 p2 m2 nf] a2 by (simp add: map_of_set_obj assms)
    moreover have "getvalue (buf_of st (fold (buf_write st) ?ls (?clr obj))) = concat ?ls"
      by (simp add: fold_buf_write_content b0 getvalue_def)
    ultimately show ?thesis by simp
  qed
  show ?thesis
    unfolding e using so pl by simp
qed

lemma sleeper_async_eq:
  "sleeper_async = (started ''sleep 10'' sleeper w_boot)\<lparr>OBJS_TO_CLEANUP := [1]\<rparr>"
proof -
  have l: "launches sleeper" by (simp add: sleeper_def)
  have f: "fresh_ref w_boot = 1" "OBJS_TO_CLEANUP w_boot = []"
    by (simp_all add: fresh_ref_def w_boot_def module_loaded_def)
  from async_cmd_launch [OF l, of "''sleep 10''" None w_boot]
  show ?thesis by (simp add: sleeper_async_def f)
qed

theorem clear_buffers_empties_witness:
  "stdout 1 sleeper_polled = Some ''zz'' \<and>
   stdout 1 (snd (clear_buffers 1 sleeper_polled)) = Some [] \<and>
   stderr 1 (snd (clear_buffers 1 sleeper_polled)) = Some [] \<and>
   stdout 1 (pump_steps 3 Stdout 1 ((snd (clear_buffers 1 sleeper_polled))\<lparr>clock := 6000\<rparr>)) =
     Some ''awake''"
proof -
  let ?A = "sleeper_async\<lparr>clock := 10\<rparr>"
  let ?po = "\<lparr>popen_pid = 2, popen_returncode = None\<rparr>"
  let ?obj0 = "(fresh_obj ''sleep 10'')\<lparr>proc := Some ?po\<rparr>"
  let ?pm0 = "\<lparr>copied = 0, finished = False\<rparr>"
  have f: "fresh_ref w_boot = 1" "fresh_pid w_boot = 2" "clock w_boot = 0"
    by (simp_all add: fresh_ref_def fresh_pid_def w_boot_def module_loaded_def)
  note sf = started_facts [of "''sleep 10''" sleeper w_boot, unfolded f]
  have oA: "map_of (heap ?A) 1 = Some ?obj0" using sf(1) by (simp add: sleeper_async_eq)
  have pA: "proc ?obj0 = Some ?po" by simp
  have mA: "pumps ?A (1, Stdout) = Some ?pm0" using sf(2) [of Stdout] by (simp add: sleeper_async_eq)
  have nf: "\<not> finished ?pm0" by simp
  have cA: "children ?A 2 = Some \<lparr>child_program = sleeper, born = 0\<rparr>" "exited ?A 2 = None"
    using sf(3,4) by (simp_all add: sleeper_async_eq)
  have aA: "avail ?A (popen_pid ?po) Stdout = [''zz'']"
    using cA by (simp add: avail_def written_until_def lines_of_def sleeper_def)
  have xA: "(exited ?A (popen_pid ?po) \<noteq> None \<and> length (drop (copied ?pm0) [''zz'']) < 1) = False"
    by simp
  let ?objP = "fold (buf_write Stdout) (take 1 (drop (copied ?pm0) [''zz''])) ?obj0"
  let ?pmP = "\<lparr>copied = copied ?pm0 + length (take 1 (drop (copied ?pm0) [''zz''])), finished = False\<rparr>"
  have sp: "sleeper_polled =
      (set_obj 1 (fold (buf_write Stdout) (take 1 (drop (copied ?pm0) [''zz'']))) ?A)
        \<lparr>pumps := (pumps ?A)((1, Stdout) \<mapsto> ?pmP)\<rparr>"
    unfolding sleeper_polled_def pump_steps_eq [OF oA pA mA nf] aA xA ..
  have o: "map_of (heap sleeper_polled) 1 = Some ?objP"
    unfolding sp using oA by (simp add: map_of_set_obj)
  have b0: "buf_of Stdout ?obj0 = \<lparr>content = [], pos = 0\<rparr>"
    by (simp add: buf_of_def fresh_obj_def)
  have a: "stdout 1 sleeper_polled = Some ''zz''"
    using o fold_buf_write_content [of Stdout ?obj0 "[''zz'']"] b0
    by (simp add: stdout_def getvalue_def buf_of_def)
  have pP: "proc ?objP = Some ?po" by simp
  have mP: "pumps sleeper_polled (1, Stdout) = Some ?pmP" unfolding sp by simp
  have cP: "children (sleeper_polled\<lparr>clock := 6000\<rparr>) 2 = Some \<lparr>child_program = sleeper, born = 0\<rparr>"
    "exited (sleeper_polled\<lparr>clock := 6000\<rparr>) 2 = None"
    unfolding sp using cA by simp_all
  have aP: "avail (sleeper_polled\<lparr>clock := 6000\<rparr>) (popen_pid ?po) Stdout = [''zz'', ''awake'']"
    using cP by (simp add: avail_def written_until_def lines_of_def sleeper_def)
  note th = clear_buffers_empties [OF o]
  have c: "stdout 1 (snd (clear_buffers 1 sleeper_polled)) = Some []"
       "stderr 1 (snd (clear_buffers 1 sleeper_polled)) = Some []"
    using th by blast+
  have h: "proc ?objP = Some ?po \<and> pumps sleeper_polled (1, Stdout) = Some ?pmP \<and> \<not> finished ?pmP"
    by (intro conjI) (rule pP, rule mP, simp)
  note d = th [THEN conjunct2, THEN conjunct2, THEN conjunct2, rule_format, OF h, of 3 6000]
  from d have e: "stdout 1 (pump_steps 3 Stdout 1 ((snd (clear_buffers 1 sleeper_polled))\<lparr>clock := 6000\<rparr>)) =
     Some ''awake''"
    unfolding aP by (simp add: stdout_def buf_of_def)
  from a c e show ?thesis by simp
qed

end
